theory Spec2Isabelle
  imports Main "HOL-Library.Multiset"
begin

section \<open>Data model\<close>

text \<open>
  The blog of \<^verbatim>\<open>posts/models.py\<close> and \<^verbatim>\<open>posts/views.py\<close>. A request carries
  either Django's \<^verbatim>\<open>AnonymousUser\<close> or a row of \<^verbatim>\<open>users.CustomUser\<close>, of which the
  views read the primary key and the flags \<^verbatim>\<open>is_staff\<close> and \<^verbatim>\<open>is_superuser\<close>.
\<close>

datatype user = AnonymousUser | CustomUser nat bool bool

fun is_authenticated :: "user \<Rightarrow> bool" where
  "is_authenticated AnonymousUser = False"
| "is_authenticated (CustomUser k st su) = True"

fun is_staff :: "user \<Rightarrow> bool" where
  "is_staff AnonymousUser = False"
| "is_staff (CustomUser k st su) = st"

fun is_superuser :: "user \<Rightarrow> bool" where
  "is_superuser AnonymousUser = False"
| "is_superuser (CustomUser k st su) = su"

text \<open>
  \<^verbatim>\<open>request.user == post.author\<close>: model instances are equal when their primary keys
  are; \<^verbatim>\<open>AnonymousUser\<close> equals no stored user. The second argument is the key of the
  stored user.
\<close>

fun user_eq :: "user \<Rightarrow> nat \<Rightarrow> bool" where
  "user_eq AnonymousUser a = False"
| "user_eq (CustomUser k st su) a = (k = a)"

text \<open>\<^verbatim>\<open>request.user in queryset\<close>: some element of the query set equals the user.\<close>

definition user_in :: "user \<Rightarrow> nat list \<Rightarrow> bool" where
  "user_in u ks = list_ex (user_eq u) ks"

type_synonym bytes = "char list"

record post =
  post_pk :: nat
  title :: string
  content :: string
  author_id :: nat
  date_posted :: int
  is_public :: bool

text \<open>
  Of the field \<^verbatim>\<open>Document.file\<close> the row holds the name under which the storage keeps
  the upload, relative to the media root (the field is required, so every row has one).
\<close>

record document =
  document_pk :: nat
  post_id :: nat
  file_name :: string
  description :: string

text \<open>
  The state of the site: the three tables of the \<^verbatim>\<open>posts\<close> application (the
  many-to-many field \<^verbatim>\<open>Post.shared_with\<close> is the join table of pairs
  (post key, user key)), the media root of the settings, and the files under it, by path.
\<close>

record site =
  posts :: "post list"
  posts_shared_with :: "(nat \<times> nat) list"
  documents :: "document list"
  MEDIA_ROOT :: string
  media :: "string \<rightharpoonup> bytes"

text \<open>Responses. A redirect names the view it goes to and carries the messages queued for it.\<close>

datatype view_name = login | post_list | post_detail nat

datatype level = Error | Success

datatype template_context = NoObject | PostObject post | PostObjects "post list"

datatype response =
    Http404
  | ServerError string
  | Redirect view_name "(level \<times> string) list"
  | TemplateResponse string template_context
  | HttpResponse bytes string string

datatype 'a request = GET | POST 'a

section \<open>Queries\<close>

text \<open>\<^verbatim>\<open>get_object()\<close> and \<^verbatim>\<open>get_object_or_404\<close>: the row with the key, if there is one.\<close>

definition get_object :: "site \<Rightarrow> nat \<Rightarrow> post option" where
  "get_object s k = find (\<lambda>p. post_pk p = k) (posts s)"

definition get_document :: "site \<Rightarrow> nat \<Rightarrow> document option" where
  "get_document s k = find (\<lambda>d. document_pk d = k) (documents s)"

text \<open>\<^verbatim>\<open>post.shared_with.all()\<close>: the user keys the join table holds for the post.\<close>

definition shared_with_all :: "site \<Rightarrow> post \<Rightarrow> nat list" where
  "shared_with_all s p = map snd (filter (\<lambda>r. fst r = post_pk p) (posts_shared_with s))"

text \<open>
  A filter on \<^verbatim>\<open>shared_with\<close> joins the join table to the posts with a left outer
  join: one row for each pair of the post, and one row without a user for a post that has
  no pair.
\<close>

definition left_join_shared_with :: "site \<Rightarrow> post list \<Rightarrow> (post \<times> nat option) list" where
  "left_join_shared_with s ps =
     concat (map (\<lambda>p. case shared_with_all s p of
                          [] \<Rightarrow> [(p, None)]
                        | us \<Rightarrow> map (\<lambda>k. (p, Some k)) us) ps)"

text \<open>\<^verbatim>\<open>ordering = ['-date_posted']\<close>.\<close>

definition order_by_date_posted_desc :: "post list \<Rightarrow> post list" where
  "order_by_date_posted_desc ps = sort_key (\<lambda>p. - date_posted p) ps"

section \<open>PostListView\<close>

text \<open>
  \<^verbatim>\<open>get_queryset\<close>: the ordered query set for a superuser; for anyone else the rows of
  the join that are public or whose pair names the user, \<^verbatim>\<open>distinct()\<close>, ordered.
\<close>

definition PostListView_get_queryset :: "site \<Rightarrow> user \<Rightarrow> post list" where
  "PostListView_get_queryset s u =
     (let queryset = posts s in
      if is_superuser u then order_by_date_posted_desc queryset
      else order_by_date_posted_desc
             (remdups (map fst
                (filter (\<lambda>(p, j). is_public p \<or> (case j of None \<Rightarrow> False | Some k \<Rightarrow> user_eq u k))
                   (left_join_shared_with s queryset)))))"

text \<open>
  \<^verbatim>\<open>LoginRequiredMixin\<close> with the default \<^verbatim>\<open>handle_no_permission\<close>: an anonymous
  request goes to \<^verbatim>\<open>LOGIN_URL\<close>.
\<close>

definition PostListView :: "site \<Rightarrow> user \<Rightarrow> response" where
  "PostListView s u =
     (if \<not> is_authenticated u then Redirect login []
      else TemplateResponse ''posts/post_list.html'' (PostObjects (PostListView_get_queryset s u)))"

section \<open>PostDetailView\<close>

definition PostDetailView_test_func :: "site \<Rightarrow> user \<Rightarrow> post \<Rightarrow> bool" where
  "PostDetailView_test_func s u p =
     (if is_public p then True
      else if is_authenticated u then
        (if user_eq u (author_id p) then True
         else if user_in u (shared_with_all s p) then True
         else if is_superuser u then True
         else False)
      else False)"

definition PostDetailView_handle_no_permission :: "user \<Rightarrow> response" where
  "PostDetailView_handle_no_permission u =
     (let messages = [(Error, ''You do not have permission to view this post.'')] in
      if \<not> is_authenticated u then Redirect login messages
      else Redirect post_list messages)"

text \<open>
  \<^verbatim>\<open>UserPassesTestMixin.dispatch\<close>: the test runs first (and looks the post up, which
  raises \<^verbatim>\<open>Http404\<close> when it is absent); a failed test goes to \<^verbatim>\<open>handle_no_permission\<close>.
\<close>

definition PostDetailView :: "site \<Rightarrow> user \<Rightarrow> nat \<Rightarrow> response" where
  "PostDetailView s u k =
     (case get_object s k of
        None \<Rightarrow> Http404
      | Some p \<Rightarrow>
          if \<not> PostDetailView_test_func s u p then PostDetailView_handle_no_permission u
          else TemplateResponse ''posts/post_detail.html'' (PostObject p))"

section \<open>download_document\<close>

text \<open>\<^verbatim>\<open>os.path.basename\<close>: what follows the last slash.\<close>

definition basename :: "string \<Rightarrow> string" where
  "basename p = rev (takeWhile (\<lambda>c. c \<noteq> CHR ''/'') (rev p))"

text \<open>\<^verbatim>\<open>document.file.path\<close>: the stored name under the media root.\<close>

definition file_path :: "site \<Rightarrow> document \<Rightarrow> string" where
  "file_path s d = MEDIA_ROOT s @ ''/'' @ file_name d"

definition download_document :: "site \<Rightarrow> user \<Rightarrow> nat \<Rightarrow> response" where
  "download_document s u k =
     (case get_document s k of
        None \<Rightarrow> Http404
      | Some d \<Rightarrow>
         (case get_object s (post_id d) of
            None \<Rightarrow> ServerError ''Post.DoesNotExist''
          | Some p \<Rightarrow>
              if \<not> is_authenticated u then
                Redirect login [(Error, ''You need to be logged in to download documents.'')]
              else if \<not> (is_public p \<or> user_eq u (author_id p)
                          \<or> user_in u (shared_with_all s p) \<or> is_superuser u) then
                Redirect (post_detail (post_pk p))
                  [(Error, ''You do not have permission to download this document.'')]
              else
                (case media s (file_path s d) of
                   Some fh \<Rightarrow>
                     HttpResponse fh ''application/octet-stream''
                       (''inline; filename='' @ basename (file_path s d))
                 | None \<Rightarrow> Redirect (post_detail (post_pk p)) [(Error, ''File not found.'')])))"

section \<open>Forms\<close>

text \<open>
  A bound form after \<^verbatim>\<open>is_valid()\<close>: invalid, or valid with its cleaned data. What makes
  a form valid is decided by the framework's field validation, so validity is part of the
  request here. \<^verbatim>\<open>PostForm\<close> has the fields title, content, is_public and shared_with.
\<close>

datatype 'a form = InvalidForm | ValidForm 'a

record post_data =
  cleaned_title :: string
  cleaned_content :: string
  cleaned_is_public :: bool
  cleaned_shared_with :: "nat list"

text \<open>
  The changed forms of a valid \<^verbatim>\<open>DocumentFormSet\<close> (an inline form set with
  \<^verbatim>\<open>can_delete\<close>): an extra form with an upload (the name the storage gives the file, its
  content, the description), a form of a stored document with new values, or a form of a
  stored document marked for deletion.
\<close>

datatype document_form =
    NewDocument string bytes string
  | ChangeDocument nat "(string \<times> bytes) option" string
  | DeleteDocument nat

text \<open>\<^verbatim>\<open>form.instance\<close>: a post not yet saved, which has an author only, or a stored post.\<close>

datatype form_instance = Unsaved nat | Saved post

section \<open>Writes\<close>

text \<open>An automatic primary key: greater than every key of the table.\<close>

definition next_pk :: "nat list \<Rightarrow> nat" where
  "next_pk ks = Suc (fold max ks 0)"

text \<open>\<^verbatim>\<open>Model.save()\<close>: update the row with the key, insert when there is none.\<close>

definition Post_save :: "site \<Rightarrow> post \<Rightarrow> site" where
  "Post_save s p =
     (if list_ex (\<lambda>q. post_pk q = post_pk p) (posts s)
      then s\<lparr>posts := map (\<lambda>q. if post_pk q = post_pk p then p else q) (posts s)\<rparr>
      else s\<lparr>posts := posts s @ [p]\<rparr>)"

text \<open>
  \<^verbatim>\<open>post.shared_with.set(users)\<close>: the pairs of the post whose user is not wanted go, the
  wanted users that have no pair yet get one.
\<close>

definition shared_with_set :: "site \<Rightarrow> nat \<Rightarrow> nat list \<Rightarrow> site" where
  "shared_with_set s k us =
     s\<lparr>posts_shared_with :=
         filter (\<lambda>r. \<not> (fst r = k \<and> snd r \<notin> set us)) (posts_shared_with s)
         @ map (Pair k) (filter (\<lambda>a. (k, a) \<notin> set (posts_shared_with s)) (remdups us))\<rparr>"

text \<open>
  \<^verbatim>\<open>form.save()\<close> of the model form: the cleaned fields go into the instance, the
  instance is saved (\<^verbatim>\<open>date_posted\<close> is set on insert only), then the many-to-many field.
\<close>

definition PostForm_save :: "site \<Rightarrow> form_instance \<Rightarrow> int \<Rightarrow> post_data \<Rightarrow> post \<times> site" where
  "PostForm_save s inst now cd =
     (let p = (case inst of
                 Unsaved a \<Rightarrow>
                   \<lparr>post_pk = next_pk (map post_pk (posts s)), title = cleaned_title cd,
                    content = cleaned_content cd, author_id = a, date_posted = now,
                    is_public = cleaned_is_public cd\<rparr>
               | Saved q \<Rightarrow>
                   q\<lparr>title := cleaned_title cd, content := cleaned_content cd,
                     is_public := cleaned_is_public cd\<rparr>)
      in (p, shared_with_set (Post_save s p) (post_pk p) (cleaned_shared_with cd)))"

text \<open>
  \<^verbatim>\<open>document_formset.save()\<close>: first the forms of stored documents (those of the form
  set's instance), then the extra forms, each in the order of the form set. An upload is
  written under the media root.
\<close>

definition save_existing_object :: "nat \<Rightarrow> document_form \<Rightarrow> site \<Rightarrow> site" where
  "save_existing_object pk f s =
     (case f of
        NewDocument n b desc \<Rightarrow> s
      | DeleteDocument k \<Rightarrow>
          s\<lparr>documents := filter (\<lambda>d. \<not> (document_pk d = k \<and> post_id d = pk)) (documents s)\<rparr>
      | ChangeDocument k upload desc \<Rightarrow>
          s\<lparr>documents :=
               map (\<lambda>d. if document_pk d = k \<and> post_id d = pk
                         then d\<lparr>description := desc,
                                file_name := (case upload of None \<Rightarrow> file_name d | Some (n, b) \<Rightarrow> n)\<rparr>
                         else d) (documents s),
            media := (case upload of
                        None \<Rightarrow> media s
                      | Some (n, b) \<Rightarrow> (media s)(MEDIA_ROOT s @ ''/'' @ n \<mapsto> b))\<rparr>)"

definition save_new_object :: "nat \<Rightarrow> document_form \<Rightarrow> site \<Rightarrow> site" where
  "save_new_object pk f s =
     (case f of
        NewDocument n b desc \<Rightarrow>
          s\<lparr>documents := documents s @
               [\<lparr>document_pk = next_pk (map document_pk (documents s)), post_id = pk,
                 file_name = n, description = desc\<rparr>],
            media := (media s)(MEDIA_ROOT s @ ''/'' @ n \<mapsto> b)\<rparr>
      | ChangeDocument k upload desc \<Rightarrow> s
      | DeleteDocument k \<Rightarrow> s)"

definition DocumentFormSet_save :: "site \<Rightarrow> post \<Rightarrow> document_form list \<Rightarrow> site" where
  "DocumentFormSet_save s obj fs =
     fold (save_new_object (post_pk obj)) fs (fold (save_existing_object (post_pk obj)) fs s)"

text \<open>
  \<^verbatim>\<open>post.delete()\<close>: \<^verbatim>\<open>Document.post\<close> is declared \<^verbatim>\<open>on_delete=models.CASCADE\<close>, so the
  documents of the post are deleted with it, and so are its pairs in the join table.
\<close>

definition Post_delete :: "site \<Rightarrow> post \<Rightarrow> site" where
  "Post_delete s p =
     s\<lparr>documents := filter (\<lambda>d. post_id d \<noteq> post_pk p) (documents s),
       posts_shared_with := filter (\<lambda>r. fst r \<noteq> post_pk p) (posts_shared_with s),
       posts := filter (\<lambda>q. post_pk q \<noteq> post_pk p) (posts s)\<rparr>"

section \<open>Transactions\<close>

text \<open>
  How a block is left: normally (by falling off its end or by \<^verbatim>\<open>return\<close>) with a value,
  or by an exception.
\<close>

datatype 'a completion = Normal 'a | Raise string

text \<open>A rollback restores the tables; files written to the media root stay.\<close>

definition rollback :: "site \<Rightarrow> site \<Rightarrow> site" where
  "rollback s0 s =
     s\<lparr>posts := posts s0, posts_shared_with := posts_shared_with s0, documents := documents s0\<rparr>"

text \<open>
  \<^verbatim>\<open>with transaction.atomic():\<close> the block's writes are committed when the block is left
  normally, and rolled back when it is left by an exception, which goes on to the caller.
\<close>

definition transaction_atomic ::
  "(site \<Rightarrow> 'a completion \<times> site) \<Rightarrow> site \<Rightarrow> 'a completion \<times> site" where
  "transaction_atomic body s =
     (case body s of
        (Normal r, s') \<Rightarrow> (Normal r, s')
      | (Raise e, s') \<Rightarrow> (Raise e, rollback s s'))"

section \<open>PostCreateView\<close>

definition PostCreateView_test_func :: "user \<Rightarrow> bool" where
  "PostCreateView_test_func u = is_staff u"

definition PostCreateView_handle_no_permission :: response where
  "PostCreateView_handle_no_permission =
     Redirect post_list [(Error, ''You do not have permission to create posts.'')]"

text \<open>
  \<^verbatim>\<open>form.instance.author = self.request.user\<close> takes a stored user; assigning
  \<^verbatim>\<open>AnonymousUser\<close> to the foreign key raises \<^verbatim>\<open>ValueError\<close>.
\<close>

fun user_pk :: "user \<Rightarrow> nat option" where
  "user_pk AnonymousUser = None"
| "user_pk (CustomUser k st su) = Some k"

text \<open>
  \<^verbatim>\<open>form_valid\<close>. Inside the atomic block the post is saved, then the form set is
  validated; the branch of an invalid form set leaves the block by \<^verbatim>\<open>return\<close>. After the
  block, \<^verbatim>\<open>super().form_valid(form)\<close> saves the form once more (now an update of the
  stored post) and redirects to \<^verbatim>\<open>success_url\<close>.
\<close>

definition PostCreateView_form_valid ::
  "site \<Rightarrow> user \<Rightarrow> int \<Rightarrow> post_data \<Rightarrow> document_form list form \<Rightarrow> response \<times> site" where
  "PostCreateView_form_valid s u now cd document_formset =
     (case user_pk u of
        None \<Rightarrow> (ServerError ''ValueError'', s)
      | Some a \<Rightarrow>
         (case transaction_atomic
                 (\<lambda>s0. let (object, s1) = PostForm_save s0 (Unsaved a) now cd in
                    (case document_formset of
                       ValidForm fs \<Rightarrow> (Normal (object, None), DocumentFormSet_save s1 object fs)
                     | InvalidForm \<Rightarrow>
                         (Normal (object, Some (TemplateResponse ''posts/post_form.html'' NoObject)),
                          s1))) s of
            (Raise e, s') \<Rightarrow> (ServerError e, s')
          | (Normal (object, Some r), s') \<Rightarrow> (r, s')
          | (Normal (object, None), s') \<Rightarrow>
              (let (object', s'') = PostForm_save s' (Saved object) now cd in
               (Redirect post_list [(Success, ''Post created successfully!'')], s''))))"

text \<open>
  The view: \<^verbatim>\<open>LoginRequiredMixin\<close>, then \<^verbatim>\<open>UserPassesTestMixin\<close> (both go to the
  view's own \<^verbatim>\<open>handle_no_permission\<close>), then the method handler. A request of method
  POST carries the bound post form and the bound document form set.
\<close>

definition PostCreateView ::
  "site \<Rightarrow> user \<Rightarrow> int \<Rightarrow> (post_data form \<times> document_form list form) request \<Rightarrow> response \<times> site" where
  "PostCreateView s u now req =
     (if \<not> is_authenticated u then (PostCreateView_handle_no_permission, s)
      else if \<not> PostCreateView_test_func u then (PostCreateView_handle_no_permission, s)
      else
        (case req of
           GET \<Rightarrow> (TemplateResponse ''posts/post_form.html'' NoObject, s)
         | POST (form, document_formset) \<Rightarrow>
            (case form of
               InvalidForm \<Rightarrow> (TemplateResponse ''posts/post_form.html'' NoObject, s)
             | ValidForm cd \<Rightarrow> PostCreateView_form_valid s u now cd document_formset)))"

section \<open>PostUpdateView\<close>

definition PostUpdateView_test_func :: "user \<Rightarrow> post \<Rightarrow> bool" where
  "PostUpdateView_test_func u p = (user_eq u (author_id p) \<or> is_superuser u)"

definition PostUpdateView_handle_no_permission :: "nat \<Rightarrow> response" where
  "PostUpdateView_handle_no_permission k =
     Redirect (post_detail k) [(Error, ''You do not have permission to edit this post.'')]"

definition PostUpdateView_form_valid ::
  "site \<Rightarrow> post \<Rightarrow> int \<Rightarrow> post_data \<Rightarrow> document_form list form \<Rightarrow> response \<times> site" where
  "PostUpdateView_form_valid s p now cd document_formset =
     (case transaction_atomic
             (\<lambda>s0. let (object, s1) = PostForm_save s0 (Saved p) now cd in
                (case document_formset of
                   ValidForm fs \<Rightarrow> (Normal (object, None), DocumentFormSet_save s1 object fs)
                 | InvalidForm \<Rightarrow>
                     (Normal (object, Some (TemplateResponse ''posts/post_form.html'' (PostObject object))),
                      s1))) s of
        (Raise e, s') \<Rightarrow> (ServerError e, s')
      | (Normal (object, Some r), s') \<Rightarrow> (r, s')
      | (Normal (object, None), s') \<Rightarrow>
          (let (object', s'') = PostForm_save s' (Saved object) now cd in
           (Redirect (post_detail (post_pk object')) [(Success, ''Post updated successfully!'')], s'')))"

text \<open>The test looks the post up, so a missing post is \<^verbatim>\<open>Http404\<close> before the test is decided.\<close>

definition PostUpdateView ::
  "site \<Rightarrow> user \<Rightarrow> nat \<Rightarrow> int \<Rightarrow> (post_data form \<times> document_form list form) request
     \<Rightarrow> response \<times> site" where
  "PostUpdateView s u k now req =
     (if \<not> is_authenticated u then (PostUpdateView_handle_no_permission k, s)
      else
        (case get_object s k of
           None \<Rightarrow> (Http404, s)
         | Some p \<Rightarrow>
            if \<not> PostUpdateView_test_func u p then (PostUpdateView_handle_no_permission k, s)
            else
              (case req of
                 GET \<Rightarrow> (TemplateResponse ''posts/post_form.html'' (PostObject p), s)
               | POST (form, document_formset) \<Rightarrow>
                  (case form of
                     InvalidForm \<Rightarrow> (TemplateResponse ''posts/post_form.html'' (PostObject p), s)
                   | ValidForm cd \<Rightarrow> PostUpdateView_form_valid s p now cd document_formset))))"

section \<open>PostDeleteView\<close>

definition PostDeleteView_test_func :: "user \<Rightarrow> post \<Rightarrow> bool" where
  "PostDeleteView_test_func u p = (user_eq u (author_id p) \<or> is_superuser u)"

definition PostDeleteView_handle_no_permission :: "nat \<Rightarrow> response" where
  "PostDeleteView_handle_no_permission k =
     Redirect (post_detail k) [(Error, ''You do not have permission to delete this post.'')]"

text \<open>\<^verbatim>\<open>form_valid\<close>: the success message, then the object is deleted and the list is shown.\<close>

definition PostDeleteView_form_valid :: "site \<Rightarrow> post \<Rightarrow> response \<times> site" where
  "PostDeleteView_form_valid s p =
     (Redirect post_list [(Success, ''Post deleted successfully!'')], Post_delete s p)"

definition PostDeleteView :: "site \<Rightarrow> user \<Rightarrow> nat \<Rightarrow> unit request \<Rightarrow> response \<times> site" where
  "PostDeleteView s u k req =
     (if \<not> is_authenticated u then (PostDeleteView_handle_no_permission k, s)
      else
        (case get_object s k of
           None \<Rightarrow> (Http404, s)
         | Some p \<Rightarrow>
            if \<not> PostDeleteView_test_func u p then (PostDeleteView_handle_no_permission k, s)
            else
              (case req of
                 GET \<Rightarrow> (TemplateResponse ''posts/post_confirm_delete.html'' (PostObject p), s)
               | POST x \<Rightarrow> PostDeleteView_form_valid s p)))"

section \<open>Referential integrity\<close>

text \<open>
  The foreign key \<^verbatim>\<open>Document.post\<close>: every stored document names a stored post.
\<close>

definition no_orphaned_documents :: "site \<Rightarrow> bool" where
  "no_orphaned_documents s =
     list_all (\<lambda>d. list_ex (\<lambda>p. post_pk p = post_id d) (posts s)) (documents s)"

section \<open>A small site\<close>

text \<open>
  User 1 is staff and wrote both posts; user 2 is an ordinary user; user 3 has been given
  both posts; user 4 is a superuser. The post \<open>hello\<close> is private and has one document.
\<close>

definition hello :: post where
  "hello = \<lparr>post_pk = 1, title = ''Hello'', content = ''First post'', author_id = 1,
            date_posted = 100, is_public = False\<rparr>"

definition news :: post where
  "news = \<lparr>post_pk = 2, title = ''News'', content = ''For everyone'', author_id = 1,
           date_posted = 200, is_public = True\<rparr>"

definition notes_txt :: document where
  "notes_txt = \<lparr>document_pk = 1, post_id = 1, file_name = ''post_documents/notes.txt'',
                description = ''notes''\<rparr>"

definition blog :: site where
  "blog = \<lparr>posts = [hello, news], posts_shared_with = [(1, 3), (2, 3)], documents = [notes_txt],
           MEDIA_ROOT = ''/srv/media'',
           media = [''/srv/media/post_documents/notes.txt'' \<mapsto> ''remember the milk'']\<rparr>"

definition empty_blog :: site where
  "empty_blog = \<lparr>posts = [], posts_shared_with = [], documents = [],
                 MEDIA_ROOT = ''/srv/media'', media = Map.empty\<rparr>"

definition hello_data :: post_data where
  "hello_data = \<lparr>cleaned_title = ''Hello again'', cleaned_content = ''Second post'',
                 cleaned_is_public = False, cleaned_shared_with = [3]\<rparr>"

section \<open>Who may view a post\<close>

lemma user_in_CustomUser [simp]: "user_in (CustomUser k st su) ks = (k \<in> set ks)"
  by (auto simp: user_in_def list_ex_iff)

lemma user_in_AnonymousUser [simp]: "user_in AnonymousUser ks = False"
  by (simp add: user_in_def list_ex_iff)

lemma anonymous_has_no_rights:
  "\<not> is_authenticated u \<Longrightarrow> \<not> user_eq u a \<and> \<not> is_superuser u \<and> \<not> is_staff u"
  by (cases u) auto

lemma get_object_SomeD: "get_object s k = Some p \<Longrightarrow> post_pk p = k \<and> p \<in> set (posts s)"
  unfolding get_object_def by (auto simp: find_Some_iff)

text \<open>
  Claim C2. The test of the detail view lets everyone, the anonymous user included, view
  a public post. It refuses a private post to the anonymous user, and to a stored user who
  is not the author, has no pair in \<open>shared_with\<close> and is not a superuser.
\<close>

theorem canView_public_private:
  "(is_public p \<longrightarrow> PostDetailView_test_func s u p) \<and>
   (\<not> is_public p \<longrightarrow> \<not> PostDetailView_test_func s AnonymousUser p) \<and>
   (\<not> is_public p \<and> k \<noteq> author_id p \<and> k \<notin> set (shared_with_all s p)
      \<longrightarrow> \<not> PostDetailView_test_func s (CustomUser k st False) p)"
  by (simp add: PostDetailView_test_func_def)

theorem canView_public_private_witness:
  "is_public news \<and> PostDetailView_test_func blog AnonymousUser news \<and>
   \<not> is_public hello \<and> \<not> PostDetailView_test_func blog AnonymousUser hello \<and>
   2 \<noteq> author_id hello \<and> 2 \<notin> set (shared_with_all blog hello) \<and>
   \<not> PostDetailView_test_func blog (CustomUser 2 False False) hello"
  using canView_public_private [of news blog AnonymousUser 2 False]
    canView_public_private [of hello blog AnonymousUser 2 False]
  by (simp add: news_def hello_def blog_def shared_with_all_def)

text \<open>
  Claim C10. Whoever passes the test of the update view or of the delete view (the author
  or a superuser) passes the test of the detail view. This holds for every user; the
  anonymous user passes neither test.
\<close>

theorem modify_implies_view:
  "PostUpdateView_test_func u p \<or> PostDeleteView_test_func u p
     \<Longrightarrow> PostDetailView_test_func s u p"
  by (cases u)
     (auto simp: PostUpdateView_test_func_def PostDeleteView_test_func_def
        PostDetailView_test_func_def)

theorem modify_implies_view_witness:
  "(PostUpdateView_test_func (CustomUser 1 True False) hello
      \<or> PostDeleteView_test_func (CustomUser 1 True False) hello) \<and>
   PostDetailView_test_func blog (CustomUser 1 True False) hello"
proof -
  have h: "PostUpdateView_test_func (CustomUser 1 True False) hello
             \<or> PostDeleteView_test_func (CustomUser 1 True False) hello"
    by (simp add: PostUpdateView_test_func_def hello_def)
  show ?thesis using h modify_implies_view [OF h, of blog] by simp
qed

text \<open>
  Claim C7. When the detail view refuses a post, the anonymous user is sent to the login
  view and a stored user is sent to the list of posts, both with the same error message.
\<close>

theorem detail_denied_redirects:
  assumes "get_object s k = Some p" and "\<not> PostDetailView_test_func s u p"
  shows "PostDetailView s u k =
           (if is_authenticated u
            then Redirect post_list [(Error, ''You do not have permission to view this post.'')]
            else Redirect login [(Error, ''You do not have permission to view this post.'')])"
  using assms by (simp add: PostDetailView_def PostDetailView_handle_no_permission_def)

theorem detail_denied_redirects_witness:
  "get_object blog 1 = Some hello \<and>
   \<not> PostDetailView_test_func blog AnonymousUser hello \<and>
   \<not> PostDetailView_test_func blog (CustomUser 2 False False) hello \<and>
   PostDetailView blog AnonymousUser 1 =
     Redirect login [(Error, ''You do not have permission to view this post.'')] \<and>
   PostDetailView blog (CustomUser 2 False False) 1 =
     Redirect post_list [(Error, ''You do not have permission to view this post.'')]"
proof -
  have g: "get_object blog 1 = Some hello"
    by (simp add: get_object_def blog_def hello_def)
  have a: "\<not> PostDetailView_test_func blog AnonymousUser hello"
    by (simp add: PostDetailView_test_func_def hello_def)
  have b: "\<not> PostDetailView_test_func blog (CustomUser 2 False False) hello"
    by (simp add: PostDetailView_test_func_def hello_def blog_def shared_with_all_def)
  show ?thesis
    using g a b detail_denied_redirects [OF g a] detail_denied_redirects [OF g b] by simp
qed

section \<open>Downloading a document\<close>

lemma basename_no_slash: "CHR ''/'' \<notin> set (basename p)"
proof -
  have "\<forall>c \<in> set (takeWhile (\<lambda>c. c \<noteq> CHR ''/'') (rev p)). c \<noteq> CHR ''/''"
    by (auto dest: set_takeWhileD)
  then show ?thesis by (auto simp: basename_def)
qed

lemma basename_suffix:
  "\<exists>dir. p = dir @ basename p \<and> (dir = [] \<or> last dir = CHR ''/'')"
proof -
  let ?P = "\<lambda>c. c \<noteq> CHR ''/''"
  have "rev p = takeWhile ?P (rev p) @ dropWhile ?P (rev p)" by simp
  then have "p = rev (dropWhile ?P (rev p)) @ basename p"
    unfolding basename_def by (metis rev_append rev_rev_ident)
  moreover have "dropWhile ?P (rev p) = [] \<or> hd (dropWhile ?P (rev p)) = CHR ''/''"
    using hd_dropWhile[of ?P "rev p"] by auto
  then have "rev (dropWhile ?P (rev p)) = [] \<or> last (rev (dropWhile ?P (rev p))) = CHR ''/''"
    by (auto simp: last_rev)
  ultimately show ?thesis by blast
qed

text \<open>
  Claim C3. \<open>download_document\<close> answers \<open>Http404\<close> when there is no document with the
  key. For a stored document \<open>d\<close> of the post \<open>p\<close> the checks come in this order: the
  anonymous user is sent to the login view; a user whom the test of the detail view
  refuses for \<open>p\<close> is sent back to the post with an error message; when no file is stored
  at the path of the document the answer is the message that the file was not found;
  otherwise the answer carries exactly the stored bytes, with the file name
  \<open>basename\<close> of the path. That name has no slash, and the path is a directory prefix
  ending in a slash followed by the name: it is the last segment of the path.
\<close>

theorem download_document_checks:
  "(get_document s k = None \<longrightarrow> download_document s u k = Http404) \<and>
   (get_document s k = Some d \<and> get_object s (post_id d) = Some p \<longrightarrow>
      download_document s u k =
        (if \<not> is_authenticated u then
           Redirect login [(Error, ''You need to be logged in to download documents.'')]
         else if \<not> PostDetailView_test_func s u p then
           Redirect (post_detail (post_pk p))
             [(Error, ''You do not have permission to download this document.'')]
         else case media s (file_path s d) of
                None \<Rightarrow> Redirect (post_detail (post_pk p)) [(Error, ''File not found.'')]
              | Some stored \<Rightarrow>
                  HttpResponse stored ''application/octet-stream''
                    (''inline; filename='' @ basename (file_path s d)))) \<and>
   CHR ''/'' \<notin> set (basename (file_path s d)) \<and>
   (\<exists>dir. file_path s d = dir @ basename (file_path s d) \<and> last dir = CHR ''/'')"
proof -
  have a: "get_document s k = None \<longrightarrow> download_document s u k = Http404"
    by (simp add: download_document_def)
  have b: "get_document s k = Some d \<and> get_object s (post_id d) = Some p \<longrightarrow>
      download_document s u k =
        (if \<not> is_authenticated u then
           Redirect login [(Error, ''You need to be logged in to download documents.'')]
         else if \<not> PostDetailView_test_func s u p then
           Redirect (post_detail (post_pk p))
             [(Error, ''You do not have permission to download this document.'')]
         else case media s (file_path s d) of
                None \<Rightarrow> Redirect (post_detail (post_pk p)) [(Error, ''File not found.'')]
              | Some stored \<Rightarrow>
                  HttpResponse stored ''application/octet-stream''
                    (''inline; filename='' @ basename (file_path s d)))"
    by (auto simp: download_document_def PostDetailView_test_func_def split: option.splits)
  have c: "CHR ''/'' \<notin> set (basename (file_path s d))"
    by (rule basename_no_slash)
  obtain dir where dir: "file_path s d = dir @ basename (file_path s d)"
      "dir = [] \<or> last dir = CHR ''/''"
    using basename_suffix by blast
  have "CHR ''/'' \<in> set (file_path s d)"
    by (simp add: file_path_def)
  with c dir(1) have "dir \<noteq> []" by (metis append_Nil)
  with dir have e: "\<exists>dir. file_path s d = dir @ basename (file_path s d) \<and> last dir = CHR ''/''"
    by blast
  from a b c e show ?thesis by blast
qed

theorem download_document_checks_witness:
  "get_document blog 7 = None \<and> download_document blog (CustomUser 3 False False) 7 = Http404 \<and>
   get_document blog 1 = Some notes_txt \<and> get_object blog (post_id notes_txt) = Some hello \<and>
   download_document blog AnonymousUser 1 =
     Redirect login [(Error, ''You need to be logged in to download documents.'')] \<and>
   download_document blog (CustomUser 2 False False) 1 =
     Redirect (post_detail 1) [(Error, ''You do not have permission to download this document.'')] \<and>
   download_document blog (CustomUser 3 False False) 1 =
     HttpResponse ''remember the milk'' ''application/octet-stream'' ''inline; filename=notes.txt'' \<and>
   download_document (blog\<lparr>media := Map.empty\<rparr>) (CustomUser 3 False False) 1 =
     Redirect (post_detail 1) [(Error, ''File not found.'')]"
  using download_document_checks [of blog 7 "CustomUser 3 False False" notes_txt hello]
    download_document_checks [of blog 1 AnonymousUser notes_txt hello]
    download_document_checks [of blog 1 "CustomUser 2 False False" notes_txt hello]
    download_document_checks [of blog 1 "CustomUser 3 False False" notes_txt hello]
    download_document_checks [of "blog\<lparr>media := Map.empty\<rparr>" 1 "CustomUser 3 False False"
      notes_txt hello]
  by (simp add: get_document_def get_object_def PostDetailView_test_func_def shared_with_all_def
        file_path_def basename_def blog_def hello_def news_def notes_txt_def)

section \<open>Listing posts\<close>

lemma in_join_rows_of_post:
  "(q, j) \<in> set (case us of [] \<Rightarrow> [(p, None)] | a # as \<Rightarrow> map (\<lambda>k. (p, Some k)) (a # as))
     \<longleftrightarrow> q = p \<and> (case j of None \<Rightarrow> us = [] | Some k \<Rightarrow> k \<in> set us)"
  by (cases us; cases j) auto

lemma in_left_join_shared_with:
  "(p, j) \<in> set (left_join_shared_with s ps)
     \<longleftrightarrow> p \<in> set ps \<and> (case j of None \<Rightarrow> shared_with_all s p = []
                                  | Some k \<Rightarrow> k \<in> set (shared_with_all s p))"
  unfolding left_join_shared_with_def
  by (auto simp: in_join_rows_of_post)

text \<open>The posts of the rows that pass the filter: the public ones and the shared ones.\<close>

lemma visible_rows:
  "set (map fst (filter (\<lambda>(p, j). is_public p \<or> (case j of None \<Rightarrow> False | Some a \<Rightarrow> user_eq u a))
           (left_join_shared_with s ps)))
   = {p \<in> set ps. is_public p \<or> user_in u (shared_with_all s p)}"
  (is "?L = ?R")
proof (rule set_eqI)
  fix p
  have "p \<in> ?L \<longleftrightarrow> (\<exists>j. (p, j) \<in> set (left_join_shared_with s ps) \<and>
          (is_public p \<or> (case j of None \<Rightarrow> False | Some a \<Rightarrow> user_eq u a)))"
    by force
  also have "\<dots> \<longleftrightarrow> p \<in> ?R"
  proof
    assume "\<exists>j. (p, j) \<in> set (left_join_shared_with s ps) \<and>
          (is_public p \<or> (case j of None \<Rightarrow> False | Some a \<Rightarrow> user_eq u a))"
    then obtain j where j: "(p, j) \<in> set (left_join_shared_with s ps)"
      "is_public p \<or> (case j of None \<Rightarrow> False | Some a \<Rightarrow> user_eq u a)" by blast
    from j show "p \<in> ?R"
      by (cases j) (auto simp: in_left_join_shared_with user_in_def list_ex_iff)
  next
    assume r: "p \<in> ?R"
    show "\<exists>j. (p, j) \<in> set (left_join_shared_with s ps) \<and>
          (is_public p \<or> (case j of None \<Rightarrow> False | Some a \<Rightarrow> user_eq u a))"
    proof (cases "user_in u (shared_with_all s p)")
      case True
      then obtain a where "a \<in> set (shared_with_all s p)" "user_eq u a"
        by (auto simp: user_in_def list_ex_iff)
      with r have "(p, Some a) \<in> set (left_join_shared_with s ps) \<and> user_eq u a"
        by (simp add: in_left_join_shared_with)
      then show ?thesis by force
    next
      case False
      with r have pub: "is_public p" and mem: "p \<in> set ps" by auto
      show ?thesis
      proof (cases "shared_with_all s p")
        case Nil
        with mem have "(p, None) \<in> set (left_join_shared_with s ps)"
          by (simp add: in_left_join_shared_with)
        with pub show ?thesis by blast
      next
        case (Cons a as)
        with mem have "(p, Some a) \<in> set (left_join_shared_with s ps)"
          by (simp add: in_left_join_shared_with)
        with pub show ?thesis by blast
      qed
    qed
  qed
  finally show "p \<in> ?L \<longleftrightarrow> p \<in> ?R" .
qed

lemma sorted_order_by:
  "sorted_wrt (\<lambda>p q. date_posted q \<le> date_posted p) (order_by_date_posted_desc ps)"
proof -
  have "sorted (map (\<lambda>p. - date_posted p) (order_by_date_posted_desc ps))"
    unfolding order_by_date_posted_desc_def by (rule sorted_sort_key)
  then show ?thesis by (simp add: sorted_map)
qed

lemma set_order_by [simp]: "set (order_by_date_posted_desc ps) = set ps"
  by (simp add: order_by_date_posted_desc_def)

lemma mset_order_by [simp]: "mset (order_by_date_posted_desc ps) = mset ps"
  by (simp add: order_by_date_posted_desc_def)

lemma distinct_order_by [simp]: "distinct (order_by_date_posted_desc ps) = distinct ps"
  by (simp add: order_by_date_posted_desc_def)

text \<open>
  Claim C4. For a stored user the list view shows the query set of \<open>get_queryset\<close>. For a
  superuser it holds every row of the post table, as often as the table does. For anyone
  else it holds exactly the posts that are public or shared with the user, none of them
  twice, also when a post is both or has several pairs in the join table. In both cases
  the posts come newest first.
\<close>

theorem list_visible_once_newest_first:
  "(su \<longrightarrow> mset (PostListView_get_queryset s (CustomUser k st su)) = mset (posts s)) \<and>
   (\<not> su \<longrightarrow>
      set (PostListView_get_queryset s (CustomUser k st su))
        = {p \<in> set (posts s). is_public p \<or> k \<in> set (shared_with_all s p)} \<and>
      distinct (PostListView_get_queryset s (CustomUser k st su))) \<and>
   sorted_wrt (\<lambda>p q. date_posted q \<le> date_posted p)
     (PostListView_get_queryset s (CustomUser k st su)) \<and>
   PostListView s (CustomUser k st su) =
     TemplateResponse ''posts/post_list.html''
       (PostObjects (PostListView_get_queryset s (CustomUser k st su)))"
proof -
  let ?u = "CustomUser k st su"
  have a: "su \<longrightarrow> mset (PostListView_get_queryset s ?u) = mset (posts s)"
    by (simp add: PostListView_get_queryset_def)
  have b: "\<not> su \<longrightarrow> set (PostListView_get_queryset s ?u)
        = {p \<in> set (posts s). is_public p \<or> k \<in> set (shared_with_all s p)}"
    using visible_rows[of "CustomUser k st False" s "posts s"]
    by (simp add: PostListView_get_queryset_def)
  have c: "\<not> su \<longrightarrow> distinct (PostListView_get_queryset s ?u)"
    by (simp add: PostListView_get_queryset_def)
  have d: "sorted_wrt (\<lambda>p q. date_posted q \<le> date_posted p) (PostListView_get_queryset s ?u)"
    by (simp add: PostListView_get_queryset_def Let_def sorted_order_by)
  have e: "PostListView s ?u = TemplateResponse ''posts/post_list.html''
       (PostObjects (PostListView_get_queryset s ?u))"
    by (simp add: PostListView_def)
  from a b c d e show ?thesis by blast
qed

theorem list_visible_once_newest_first_witness:
  "mset (PostListView_get_queryset blog (CustomUser 4 True True)) = mset (posts blog) \<and>
   set (PostListView_get_queryset blog (CustomUser 3 False False))
     = {p \<in> set (posts blog). is_public p \<or> 3 \<in> set (shared_with_all blog p)} \<and>
   is_public news \<and> 3 \<in> set (shared_with_all blog news) \<and>
   distinct (PostListView_get_queryset blog (CustomUser 3 False False)) \<and>
   sorted_wrt (\<lambda>p q. date_posted q \<le> date_posted p)
     (PostListView_get_queryset blog (CustomUser 3 False False))"
  using list_visible_once_newest_first [of True blog 4 True]
    list_visible_once_newest_first [of False blog 3 False]
  by (simp add: shared_with_all_def blog_def hello_def news_def)

text \<open>
  Claim C9. A stored user who is not a superuser and has written a private post that is
  not shared with the user does not find the post in the list view, although the detail
  view shows it to the user.
\<close>

theorem own_private_post_not_listed:
  assumes "get_object s (post_pk p) = Some p" and "author_id p = k" and "\<not> is_public p"
    and "k \<notin> set (shared_with_all s p)"
  shows "p \<notin> set (PostListView_get_queryset s (CustomUser k st False)) \<and>
         PostListView s (CustomUser k st False) =
           TemplateResponse ''posts/post_list.html''
             (PostObjects (PostListView_get_queryset s (CustomUser k st False))) \<and>
         PostDetailView s (CustomUser k st False) (post_pk p) =
           TemplateResponse ''posts/post_detail.html'' (PostObject p)"
proof -
  have "set (PostListView_get_queryset s (CustomUser k st False))
          = {p \<in> set (posts s). is_public p \<or> user_in (CustomUser k st False) (shared_with_all s p)}"
    using visible_rows[of "CustomUser k st False" s "posts s"]
    by (simp add: PostListView_get_queryset_def)
  with assms(3,4) have a: "p \<notin> set (PostListView_get_queryset s (CustomUser k st False))"
    by simp
  have b: "PostDetailView s (CustomUser k st False) (post_pk p) =
           TemplateResponse ''posts/post_detail.html'' (PostObject p)"
    using assms(1,2) by (simp add: PostDetailView_def PostDetailView_test_func_def)
  from a b show ?thesis by (simp add: PostListView_def)
qed

theorem own_private_post_not_listed_witness:
  "get_object blog (post_pk hello) = Some hello \<and> author_id hello = 1 \<and> \<not> is_public hello \<and>
   1 \<notin> set (shared_with_all blog hello) \<and>
   hello \<notin> set (PostListView_get_queryset blog (CustomUser 1 True False)) \<and>
   PostDetailView blog (CustomUser 1 True False) (post_pk hello) =
     TemplateResponse ''posts/post_detail.html'' (PostObject hello)"
proof -
  have g: "get_object blog (post_pk hello) = Some hello"
    by (simp add: get_object_def blog_def hello_def)
  have a: "author_id hello = 1" and b: "\<not> is_public hello"
    by (simp_all add: hello_def)
  have c: "1 \<notin> set (shared_with_all blog hello)"
    by (simp add: shared_with_all_def blog_def hello_def)
  show ?thesis
    using g a b c own_private_post_not_listed [OF g a b c, of True] by simp
qed

section \<open>Creating a post\<close>

lemma PostCreateView_form_valid_response:
  "fst (PostCreateView_form_valid s u now cd fs) \<noteq> PostCreateView_handle_no_permission"
  by (auto simp: PostCreateView_form_valid_def PostCreateView_handle_no_permission_def
        transaction_atomic_def Let_def
        split: option.splits form.splits prod.splits completion.splits)

text \<open>
  Claim C6. The test of the create view is \<open>is_staff\<close>. A request, of whatever method and
  content, is answered with the redirect to the list of posts and the message that the
  user may not create posts exactly when the user is not staff (the anonymous user is
  not), and then the site is left as it was: no post and no document is added.
\<close>

theorem create_gate:
  "PostCreateView_test_func u = is_staff u \<and>
   (fst (PostCreateView s u now req)
      = Redirect post_list [(Error, ''You do not have permission to create posts.'')])
     = (\<not> is_staff u) \<and>
   (\<not> is_staff u \<longrightarrow> snd (PostCreateView s u now req) = s)"
proof -
  have a: "PostCreateView_test_func u = is_staff u"
    by (simp add: PostCreateView_test_func_def)
  have b: "\<not> is_staff u \<Longrightarrow> PostCreateView s u now req = (PostCreateView_handle_no_permission, s)"
    by (simp add: PostCreateView_def PostCreateView_test_func_def)
  have c: "is_staff u \<Longrightarrow> fst (PostCreateView s u now req) \<noteq> PostCreateView_handle_no_permission"
    using PostCreateView_form_valid_response[of s u now]
    by (cases u)
       (auto simp: PostCreateView_def PostCreateView_test_func_def
          PostCreateView_handle_no_permission_def split: request.splits form.splits)
  from a b c show ?thesis
    unfolding PostCreateView_handle_no_permission_def by (metis fst_conv snd_conv)
qed

theorem create_gate_witness:
  "\<not> is_staff (CustomUser 2 False False) \<and>
   fst (PostCreateView blog (CustomUser 2 False False) 300 (POST (ValidForm hello_data, ValidForm [])))
     = Redirect post_list [(Error, ''You do not have permission to create posts.'')] \<and>
   snd (PostCreateView blog (CustomUser 2 False False) 300 (POST (ValidForm hello_data, ValidForm [])))
     = blog"
  using create_gate [of "CustomUser 2 False False" blog 300 "POST (ValidForm hello_data, ValidForm [])"]
  by simp

text \<open>
  Claim C1, which the code does not keep. The branch of \<open>form_valid\<close> for an invalid
  document form set leaves the atomic block by \<^verbatim>\<open>return\<close>, that is normally, so the
  block commits what \<open>form.save()\<close> has written. A staff user who posts a valid post form
  with an invalid document form set to the create view of the empty site gets the form
  page back and the new post and its \<open>shared_with\<close> pair are stored; the same request to
  the update view of \<open>hello\<close> changes the stored post.
\<close>

theorem invalid_formset_commits_post:
  "(let (r, s') = PostCreateView empty_blog (CustomUser 1 True False) 300
                    (POST (ValidForm hello_data, InvalidForm))
    in r = TemplateResponse ''posts/post_form.html'' NoObject \<and>
       posts s' = [\<lparr>post_pk = 1, title = ''Hello again'', content = ''Second post'',
                    author_id = 1, date_posted = 300, is_public = False\<rparr>] \<and>
       posts_shared_with s' = [(1, 3)] \<and> documents s' = []) \<and>
   (let (r, s') = PostUpdateView blog (CustomUser 1 True False) 1 300
                    (POST (ValidForm hello_data, InvalidForm))
    in posts s' = [hello\<lparr>title := ''Hello again'', content := ''Second post''\<rparr>, news] \<and>
       posts s' \<noteq> posts blog \<and> documents s' = documents blog)"
  by (simp add: PostCreateView_def PostCreateView_test_func_def PostCreateView_form_valid_def
        PostUpdateView_def PostUpdateView_test_func_def PostUpdateView_form_valid_def
        transaction_atomic_def PostForm_save_def Post_save_def shared_with_set_def next_pk_def
        get_object_def empty_blog_def blog_def hello_def news_def hello_data_def Let_def)

text \<open>The same for every site, staff user and cleaned post form: the post table grows.\<close>

lemma PostCreateView_invalid_formset:
  "PostCreateView s (CustomUser a True su) now (POST (ValidForm cd, InvalidForm)) =
     (TemplateResponse ''posts/post_form.html'' NoObject,
      snd (PostForm_save s (Unsaved a) now cd))"
  by (simp add: PostCreateView_def PostCreateView_test_func_def PostCreateView_form_valid_def
        transaction_atomic_def split: prod.splits)

lemma fold_max_ge: "m \<le> fold max ks (m::nat) \<and> (\<forall>k \<in> set ks. k \<le> fold max ks m)"
proof (induction ks arbitrary: m)
  case Nil
  show ?case by simp
next
  case (Cons a ks)
  from Cons.IH[of "max a m"] show ?case by auto
qed

lemma next_pk_fresh: "next_pk ks \<notin> set ks"
  using fold_max_ge[of 0 ks] by (auto simp: next_pk_def)

lemma PostForm_save_Unsaved_posts:
  "posts (snd (PostForm_save s (Unsaved a) now cd)) =
     posts s @ [\<lparr>post_pk = next_pk (map post_pk (posts s)), title = cleaned_title cd,
                 content = cleaned_content cd, author_id = a, date_posted = now,
                 is_public = cleaned_is_public cd\<rparr>]"
proof -
  have "\<not> list_ex (\<lambda>q. post_pk q = next_pk (map post_pk (posts s))) (posts s)"
    using next_pk_fresh[of "map post_pk (posts s)"] by (force simp: list_ex_iff)
  then show ?thesis
    by (simp add: PostForm_save_def Post_save_def shared_with_set_def Let_def)
qed

lemma PostCreateView_invalid_formset_posts:
  "length (posts (snd (PostCreateView s (CustomUser a True su) now
                         (POST (ValidForm cd, InvalidForm)))))
     = Suc (length (posts s))"
  by (simp add: PostCreateView_invalid_formset PostForm_save_Unsaved_posts)

section \<open>Updating and deleting a post\<close>

lemma PostUpdateView_form_valid_response:
  "fst (PostUpdateView_form_valid s p now cd fs) \<noteq> PostUpdateView_handle_no_permission k"
  by (auto simp: PostUpdateView_form_valid_def PostUpdateView_handle_no_permission_def
        transaction_atomic_def Let_def
        split: option.splits form.splits prod.splits completion.splits)

text \<open>
  Claim C5. The tests of the update view and of the delete view hold exactly for the
  author of the post and for a superuser. For a stored post, a request to either view is
  answered with the redirect to the post and the message that the user may not edit
  (delete) it exactly when the user is neither, and then the site, with the post and its
  documents, is left as it was.
\<close>

theorem modify_gate:
  assumes "get_object s k = Some p"
  shows "PostUpdateView_test_func u p = (user_eq u (author_id p) \<or> is_superuser u) \<and>
         PostDeleteView_test_func u p = (user_eq u (author_id p) \<or> is_superuser u) \<and>
         (fst (PostUpdateView s u k now req)
            = Redirect (post_detail k) [(Error, ''You do not have permission to edit this post.'')])
           = (\<not> (user_eq u (author_id p) \<or> is_superuser u)) \<and>
         (fst (PostDeleteView s u k dreq)
            = Redirect (post_detail k) [(Error, ''You do not have permission to delete this post.'')])
           = (\<not> (user_eq u (author_id p) \<or> is_superuser u)) \<and>
         (\<not> (user_eq u (author_id p) \<or> is_superuser u) \<longrightarrow>
            snd (PostUpdateView s u k now req) = s \<and> snd (PostDeleteView s u k dreq) = s)"
proof -
  let ?ok = "user_eq u (author_id p) \<or> is_superuser u"
  have anon: "\<not> is_authenticated u \<Longrightarrow> \<not> ?ok"
    using anonymous_has_no_rights by blast
  have a: "PostUpdateView_test_func u p = ?ok" "PostDeleteView_test_func u p = ?ok"
    by (simp_all add: PostUpdateView_test_func_def PostDeleteView_test_func_def)
  have b: "\<not> ?ok \<Longrightarrow> PostUpdateView s u k now req = (PostUpdateView_handle_no_permission k, s)"
    using assms by (simp add: PostUpdateView_def PostUpdateView_test_func_def)
  have c: "\<not> ?ok \<Longrightarrow> PostDeleteView s u k dreq = (PostDeleteView_handle_no_permission k, s)"
    using assms by (simp add: PostDeleteView_def PostDeleteView_test_func_def)
  have d: "?ok \<Longrightarrow> fst (PostUpdateView s u k now req) \<noteq> PostUpdateView_handle_no_permission k"
    using assms anon PostUpdateView_form_valid_response[of s p now _ _ k]
    by (auto simp: PostUpdateView_def PostUpdateView_test_func_def
          PostUpdateView_handle_no_permission_def split: request.splits form.splits)
  have e: "?ok \<Longrightarrow> fst (PostDeleteView s u k dreq) \<noteq> PostDeleteView_handle_no_permission k"
    using assms anon
    by (auto simp: PostDeleteView_def PostDeleteView_test_func_def PostDeleteView_form_valid_def
          PostDeleteView_handle_no_permission_def split: request.splits)
  from a b c d e show ?thesis
    unfolding PostUpdateView_handle_no_permission_def PostDeleteView_handle_no_permission_def
    by (metis fst_conv snd_conv)
qed

theorem modify_gate_witness:
  "get_object blog 1 = Some hello \<and>
   \<not> (user_eq (CustomUser 2 False False) (author_id hello) \<or> is_superuser (CustomUser 2 False False)) \<and>
   fst (PostUpdateView blog (CustomUser 2 False False) 1 300 (POST (ValidForm hello_data, ValidForm [])))
     = Redirect (post_detail 1) [(Error, ''You do not have permission to edit this post.'')] \<and>
   snd (PostUpdateView blog (CustomUser 2 False False) 1 300 (POST (ValidForm hello_data, ValidForm [])))
     = blog \<and>
   fst (PostDeleteView blog (CustomUser 2 False False) 1 (POST ()))
     = Redirect (post_detail 1) [(Error, ''You do not have permission to delete this post.'')] \<and>
   snd (PostDeleteView blog (CustomUser 2 False False) 1 (POST ())) = blog"
proof -
  have g: "get_object blog 1 = Some hello"
    by (simp add: get_object_def blog_def hello_def)
  have a: "author_id hello = 1" by (simp add: hello_def)
  show ?thesis
    using g a
      modify_gate [OF g, of "CustomUser 2 False False" 300
        "POST (ValidForm hello_data, ValidForm [])" "POST ()"]
    by simp
qed

section \<open>Documents and their posts\<close>

lemma no_orphaned_documents_iff:
  "no_orphaned_documents s \<longleftrightarrow> post_id ` set (documents s) \<subseteq> post_pk ` set (posts s)"
  unfolding no_orphaned_documents_def list_all_iff list_ex_iff
  by (simp add: image_subset_iff image_iff) metis

lemma posts_Post_save:
  "post_pk ` set (posts (Post_save s p)) = insert (post_pk p) (post_pk ` set (posts s))"
  by (auto simp: Post_save_def list_ex_iff image_iff)

lemma PostForm_save_tables:
  assumes "PostForm_save s inst now cd = (p, s')"
  shows "post_pk ` set (posts s') = insert (post_pk p) (post_pk ` set (posts s))"
    and "documents s' = documents s"
  using assms posts_Post_save[of s p]
  by (auto simp: PostForm_save_def shared_with_set_def Post_save_def Let_def)

lemma save_existing_object_tables:
  "posts (save_existing_object pk f s) = posts s"
  "post_id ` set (documents (save_existing_object pk f s)) \<subseteq> post_id ` set (documents s)"
  by (cases f; auto simp: save_existing_object_def)+

lemma save_new_object_tables:
  "posts (save_new_object pk f s) = posts s"
  "post_id ` set (documents (save_new_object pk f s)) \<subseteq> insert pk (post_id ` set (documents s))"
  by (cases f; auto simp: save_new_object_def)+

lemma fold_save_existing_object_tables:
  "posts (fold (save_existing_object pk) fs s) = posts s \<and>
   post_id ` set (documents (fold (save_existing_object pk) fs s)) \<subseteq> post_id ` set (documents s)"
proof (induction fs arbitrary: s)
  case Nil
  show ?case by simp
next
  case (Cons f fs)
  let ?s1 = "save_existing_object pk f s"
  have 1: "posts ?s1 = posts s"
    and 2: "post_id ` set (documents ?s1) \<subseteq> post_id ` set (documents s)"
    by (rule save_existing_object_tables)+
  from Cons.IH[of ?s1]
  have 3: "posts (fold (save_existing_object pk) fs ?s1) = posts ?s1"
    and 4: "post_id ` set (documents (fold (save_existing_object pk) fs ?s1))
              \<subseteq> post_id ` set (documents ?s1)"
    by simp_all
  from 4 2 have "post_id ` set (documents (fold (save_existing_object pk) fs ?s1))
              \<subseteq> post_id ` set (documents s)"
    by (rule subset_trans)
  with 1 3 show ?case by simp
qed

lemma fold_save_new_object_tables:
  "posts (fold (save_new_object pk) fs s) = posts s \<and>
   post_id ` set (documents (fold (save_new_object pk) fs s))
     \<subseteq> insert pk (post_id ` set (documents s))"
proof (induction fs arbitrary: s)
  case Nil
  show ?case by auto
next
  case (Cons f fs)
  let ?s1 = "save_new_object pk f s"
  have 1: "posts ?s1 = posts s"
    and 2: "post_id ` set (documents ?s1) \<subseteq> insert pk (post_id ` set (documents s))"
    by (rule save_new_object_tables)+
  from Cons.IH[of ?s1]
  have 3: "posts (fold (save_new_object pk) fs ?s1) = posts ?s1"
    and 4: "post_id ` set (documents (fold (save_new_object pk) fs ?s1))
              \<subseteq> insert pk (post_id ` set (documents ?s1))"
    by simp_all
  from 2 have "insert pk (post_id ` set (documents ?s1))
                 \<subseteq> insert pk (post_id ` set (documents s))"
    by blast
  with 4 have "post_id ` set (documents (fold (save_new_object pk) fs ?s1))
              \<subseteq> insert pk (post_id ` set (documents s))"
    by (rule subset_trans)
  with 1 3 show ?case by simp
qed

lemma DocumentFormSet_save_tables:
  "posts (DocumentFormSet_save s obj fs) = posts s"
  "post_id ` set (documents (DocumentFormSet_save s obj fs))
     \<subseteq> insert (post_pk obj) (post_id ` set (documents s))"
proof -
  let ?s1 = "fold (save_existing_object (post_pk obj)) fs s"
  have 1: "posts ?s1 = posts s"
    and 2: "post_id ` set (documents ?s1) \<subseteq> post_id ` set (documents s)"
    using fold_save_existing_object_tables[of "post_pk obj" fs s] by simp_all
  have 3: "posts (fold (save_new_object (post_pk obj)) fs ?s1) = posts ?s1"
    and 4: "post_id ` set (documents (fold (save_new_object (post_pk obj)) fs ?s1))
              \<subseteq> insert (post_pk obj) (post_id ` set (documents ?s1))"
    using fold_save_new_object_tables[of "post_pk obj" fs ?s1] by simp_all
  from 1 3 show "posts (DocumentFormSet_save s obj fs) = posts s"
    by (simp add: DocumentFormSet_save_def)
  from 2 have "insert (post_pk obj) (post_id ` set (documents ?s1))
                 \<subseteq> insert (post_pk obj) (post_id ` set (documents s))"
    by blast
  with 4 show "post_id ` set (documents (DocumentFormSet_save s obj fs))
     \<subseteq> insert (post_pk obj) (post_id ` set (documents s))"
    unfolding DocumentFormSet_save_def by (rule subset_trans)
qed

text \<open>The writes of \<open>form_valid\<close> keep every document with a stored post.\<close>

lemma form_valid_body_no_orphans:
  assumes "no_orphaned_documents s"
    and "PostForm_save s inst now cd = (object, s1)"
  shows "no_orphaned_documents s1"
    and "no_orphaned_documents (DocumentFormSet_save s1 object fs)"
    and "no_orphaned_documents
           (snd (PostForm_save (DocumentFormSet_save s1 object fs) inst' now' cd'))"
proof -
  note t = PostForm_save_tables[OF assms(2)]
  from assms(1) t show a: "no_orphaned_documents s1"
    by (auto simp: no_orphaned_documents_iff)
  from assms(1) t DocumentFormSet_save_tables[of s1 object fs]
  show b: "no_orphaned_documents (DocumentFormSet_save s1 object fs)"
    unfolding no_orphaned_documents_iff by simp blast
  obtain q s2 where q: "PostForm_save (DocumentFormSet_save s1 object fs) inst' now' cd' = (q, s2)"
    by (cases "PostForm_save (DocumentFormSet_save s1 object fs) inst' now' cd'")
  from b PostForm_save_tables[OF q]
  show "no_orphaned_documents
          (snd (PostForm_save (DocumentFormSet_save s1 object fs) inst' now' cd'))"
    unfolding q no_orphaned_documents_iff by simp blast
qed

lemma PostCreateView_form_valid_no_orphans:
  assumes "no_orphaned_documents s"
  shows "no_orphaned_documents (snd (PostCreateView_form_valid s u now cd fs))"
proof (cases u)
  case AnonymousUser
  with assms show ?thesis by (simp add: PostCreateView_form_valid_def)
next
  case (CustomUser a st su)
  obtain object s1 where o: "PostForm_save s (Unsaved a) now cd = (object, s1)"
    by (cases "PostForm_save s (Unsaved a) now cd")
  from form_valid_body_no_orphans[OF assms o] show ?thesis
    by (cases fs)
       (simp_all add: PostCreateView_form_valid_def transaction_atomic_def CustomUser o
          split: prod.splits, metis snd_conv)
qed

lemma PostUpdateView_form_valid_no_orphans:
  assumes "no_orphaned_documents s"
  shows "no_orphaned_documents (snd (PostUpdateView_form_valid s p now cd fs))"
proof -
  obtain object s1 where o: "PostForm_save s (Saved p) now cd = (object, s1)"
    by (cases "PostForm_save s (Saved p) now cd")
  from form_valid_body_no_orphans[OF assms o] show ?thesis
    by (cases fs)
       (simp_all add: PostUpdateView_form_valid_def transaction_atomic_def o split: prod.splits,
        metis snd_conv)
qed

lemma PostCreateView_no_orphans:
  "no_orphaned_documents s \<Longrightarrow> no_orphaned_documents (snd (PostCreateView s u now req))"
  by (auto simp: PostCreateView_def PostCreateView_form_valid_no_orphans
        split: request.splits form.splits)

lemma PostUpdateView_no_orphans:
  "no_orphaned_documents s \<Longrightarrow> no_orphaned_documents (snd (PostUpdateView s u k now req))"
  by (auto simp: PostUpdateView_def PostUpdateView_form_valid_no_orphans
        split: request.splits form.splits option.splits)

text \<open>
  Claim C8. After a delete request that succeeded for the post with key \<open>k\<close>, the
  document table is the old one without the documents of that post, so no document names
  the post any more, and the post itself is gone. The delete view keeps the foreign key
  intact: if every document named a stored post before, every document does so after.
  (The lemmas above say the same of the create and the update view.)
\<close>

theorem delete_cascades:
  assumes "PostDeleteView s u k (POST ()) =
             (Redirect post_list [(Success, ''Post deleted successfully!'')], s')"
  shows "documents s' = filter (\<lambda>d. post_id d \<noteq> k) (documents s) \<and>
         list_all (\<lambda>d. post_id d \<noteq> k) (documents s') \<and>
         get_object s' k = None \<and>
         (no_orphaned_documents s \<longrightarrow> no_orphaned_documents s')"
proof -
  from assms obtain p where p: "get_object s k = Some p" and s': "s' = Post_delete s p"
    by (auto simp: PostDeleteView_def PostDeleteView_form_valid_def
          PostDeleteView_handle_no_permission_def split: if_splits option.splits)
  from p have pk: "post_pk p = k" by (simp add: get_object_SomeD)
  have a: "documents s' = filter (\<lambda>d. post_id d \<noteq> k) (documents s)"
    by (simp add: s' Post_delete_def pk)
  have b: "list_all (\<lambda>d. post_id d \<noteq> k) (documents s')"
    by (simp add: a list_all_iff)
  have c: "get_object s' k = None"
    by (simp add: s' Post_delete_def pk get_object_def find_None_iff)
  have d: "no_orphaned_documents s \<longrightarrow> no_orphaned_documents s'"
    unfolding no_orphaned_documents_def s' Post_delete_def pk list_all_iff list_ex_iff
    by simp metis
  from a b c d show ?thesis by blast
qed

theorem delete_cascades_witness:
  "PostDeleteView blog (CustomUser 1 True False) 1 (POST ()) =
     (Redirect post_list [(Success, ''Post deleted successfully!'')], Post_delete blog hello) \<and>
   documents blog = [notes_txt] \<and> post_id notes_txt = 1 \<and>
   documents (Post_delete blog hello) = [] \<and>
   get_object (Post_delete blog hello) 1 = None \<and>
   no_orphaned_documents blog \<and> no_orphaned_documents (Post_delete blog hello)"
proof -
  have h: "PostDeleteView blog (CustomUser 1 True False) 1 (POST ()) =
     (Redirect post_list [(Success, ''Post deleted successfully!'')], Post_delete blog hello)"
    by (simp add: PostDeleteView_def PostDeleteView_test_func_def PostDeleteView_form_valid_def
          get_object_def blog_def hello_def)
  have n: "no_orphaned_documents blog"
    by (simp add: no_orphaned_documents_def blog_def hello_def news_def notes_txt_def)
  have d: "documents blog = [notes_txt]" "post_id notes_txt = 1"
    by (simp_all add: blog_def notes_txt_def)
  show ?thesis using h n d delete_cascades [OF h] by simp
qed

end
